theory Spec2Isabelle
  imports Main "HOL-Library.AList"
begin


section \<open>JavaScript strings\<close>

text \<open>
  Strings are lists of characters; a character stands for a code unit below 256. The
  white space of ECMAScript (what \<^verbatim>\<open>String.prototype.trim\<close> strips and the regular
  expression class \<^verbatim>\<open>\s\<close> matches) is, in that range: tab, line feed, vertical tab, form
  feed, carriage return, space and no-break space.
\<close>

definition js_space :: "char \<Rightarrow> bool" where
  "js_space c = (c = CHR 0x09 \<or> c = CHR 0x0A \<or> c = CHR 0x0B \<or> c = CHR 0x0C \<or> c = CHR 0x0D
                 \<or> c = CHR 0x20 \<or> c = CHR 0xA0)"

definition trim :: "string \<Rightarrow> string" where
  "trim s = rev (dropWhile js_space (rev (dropWhile js_space s)))"

text \<open>\<^verbatim>\<open>s.replace(/\s+/g, ' ')\<close>: every maximal run of white space becomes one space.\<close>

function collapse_ws :: "string \<Rightarrow> string" where
  "collapse_ws [] = []"
| "collapse_ws (c # cs) =
     (if js_space c then CHR 0x20 # collapse_ws (dropWhile js_space cs)
      else c # collapse_ws cs)"
  by pat_completeness auto
termination
  by (relation "measure length") (auto simp: length_dropWhile_le less_Suc_eq_le)

text \<open>\<^verbatim>\<open>Array.prototype.join\<close> on an array of strings.\<close>

fun join :: "string \<Rightarrow> string list \<Rightarrow> string" where
  "join sep [] = []"
| "join sep [x] = x"
| "join sep (x # y # ys) = x @ sep @ join sep (y # ys)"

definition endsWith :: "string \<Rightarrow> string \<Rightarrow> bool" where
  "endsWith s suffix = (length suffix \<le> length s \<and> drop (length s - length suffix) s = suffix)"

text \<open>Decimal rendering of a natural number, as string concatenation renders a counter.\<close>

definition digit :: "nat \<Rightarrow> char" where
  "digit d = char_of (48 + d)"

function show_nat :: "nat \<Rightarrow> string" where
  "show_nat n = (if n < 10 then [digit n] else show_nat (n div 10) @ [digit (n mod 10)])"
  by pat_completeness auto
termination
  by (relation "measure id") auto

declare show_nat.simps [simp del]

section \<open>The markdown tree\<close>

text \<open>
  Both the index builder and the renderer work on the tree that the markdown parser
  returns (\<^verbatim>\<open>unified().use(remarkParse).parse(markdown)\<close>). A node carries its
  \<^verbatim>\<open>type\<close>, a \<^verbatim>\<open>depth\<close> (headings), an optional \<^verbatim>\<open>value\<close> (literals such as text and
  inline code), an optional \<^verbatim>\<open>alt\<close> (images) and its \<^verbatim>\<open>children\<close> (none for a leaf).
  A markdown document is represented by its tree.
\<close>

datatype node =
  Node (ntype: string) (depth: nat) (nvalue: "string option") (alt: "string option")
       (children: "node list")

text \<open>
  \<^verbatim>\<open>toString\<close> of mdast-util-to-string with its default options: the value of a literal,
  else a non-empty \<^verbatim>\<open>alt\<close>, else the concatenation over the children.
\<close>

fun toString :: "node \<Rightarrow> string" where
  "toString (Node t d v a cs) =
     (case v of
        Some s \<Rightarrow> s
      | None \<Rightarrow>
          (case a of
             Some s \<Rightarrow> if s \<noteq> [] then s else concat (map toString cs)
           | None \<Rightarrow> concat (map toString cs)))"

text \<open>
  \<^verbatim>\<open>visit(tree, type, visitor)\<close> of unist-util-visit with a visitor that returns nothing:
  a depth-first walk in document order (a node before its children) that calls the
  visitor on every node passing the test, the starting node included. The visitor's
  effect on the variables it closes over is a state transformer.
\<close>

fun visit :: "(node \<Rightarrow> bool) \<Rightarrow> (node \<Rightarrow> 's \<Rightarrow> 's) \<Rightarrow> node \<Rightarrow> 's \<Rightarrow> 's" where
  "visit test visitor (Node t d v a cs) s =
     fold (visit test visitor) cs
       (if test (Node t d v a cs) then visitor (Node t d v a cs) s else s)"

definition is_type :: "string \<Rightarrow> node \<Rightarrow> bool" where
  "is_type ty n = (ntype n = ty)"

section \<open>The slugger\<close>

text \<open>
  \<^verbatim>\<open>GithubSlugger\<close> keeps an object \<^verbatim>\<open>occurrences\<close> from slugs to counters. Its method
  \<^verbatim>\<open>slug(value)\<close> normalises the value (lower case, characters outside letters, digits,
  \<^verbatim>\<open>_\<close>, \<^verbatim>\<open>-\<close> and space removed, spaces turned into \<^verbatim>\<open>-\<close>), and while the result is
  already a key it increments the counter of the original slug and appends it:

  \<^verbatim>\<open>
  let result = slugger(value); const originalSlug = result
  while (own.call(self.occurrences, result)) {
    self.occurrences[originalSlug]++
    result = originalSlug + '-' + self.occurrences[originalSlug]
  }
  self.occurrences[result] = 0
  return result
  \<close>

  The normalisation rests on a table of Unicode classes; it is the parameter \<open>norm\<close> of
  everything that slugs.
\<close>

type_synonym occurrences = "(string \<times> nat) list"

definition numbered :: "string \<Rightarrow> nat \<Rightarrow> string" where
  "numbered originalSlug n = originalSlug @ ''-'' @ show_nat n"

definition pending :: "occurrences \<Rightarrow> string \<Rightarrow> nat set" where
  "pending occ originalSlug =
     {m. (case map_of occ originalSlug of None \<Rightarrow> True | Some n \<Rightarrow> n < m)
         \<and> numbered originalSlug m \<in> fst ` set occ}"

lemma digit_inj: "a < 10 \<Longrightarrow> b < 10 \<Longrightarrow> digit a = digit b \<Longrightarrow> a = b"
proof -
  assume a: "a < 10" and b: "b < 10" and e: "digit a = digit b"
  have "(of_char (digit a) :: nat) = (48 + a) mod 256"
       "(of_char (digit b) :: nat) = (48 + b) mod 256"
    unfolding digit_def by (rule of_char_of)+
  with e have "(48 + a) mod 256 = (48 + b) mod 256" by simp
  with a b show "a = b" by simp
qed

lemma show_nat_nonempty: "show_nat n \<noteq> []" "[] \<noteq> show_nat n"
  by (subst show_nat.simps, simp)+

lemma show_nat_inj: "show_nat n = show_nat m \<Longrightarrow> n = m"
proof (induction n arbitrary: m rule: show_nat.induct)
  case (1 n)
  show ?case
  proof (cases "n < 10")
    case True
    show ?thesis
    proof (cases "m < 10")
      case True
      with \<open>n < 10\<close> "1.prems" show ?thesis
        by (simp add: show_nat.simps [of n] show_nat.simps [of m] digit_inj)
    next
      case False
      with \<open>n < 10\<close> "1.prems" show ?thesis
        by (simp add: show_nat.simps [of n] show_nat.simps [of m] show_nat_nonempty)
    qed
  next
    case False
    show ?thesis
    proof (cases "m < 10")
      case True
      with \<open>\<not> n < 10\<close> "1.prems" show ?thesis
        by (simp add: show_nat.simps [of n] show_nat.simps [of m] show_nat_nonempty)
    next
      case mf: False
      from False mf "1.prems"
      have e: "show_nat (n div 10) = show_nat (m div 10)" "digit (n mod 10) = digit (m mod 10)"
        by (simp_all add: show_nat.simps [of n] show_nat.simps [of m])
      from "1.IH" [OF False e(1)] have "n div 10 = m div 10" .
      moreover from e(2) have "n mod 10 = m mod 10" by (simp add: digit_inj)
      ultimately show ?thesis by (metis div_mult_mod_eq)
    qed
  qed
qed

lemma finite_pending: "finite (pending occ originalSlug)"
proof -
  have "inj (numbered originalSlug)"
    by (auto simp: inj_on_def numbered_def dest: show_nat_inj)
  then have "finite (numbered originalSlug -` (fst ` set occ))"
    by (intro finite_vimageI) simp_all
  moreover have "pending occ originalSlug \<subseteq> numbered originalSlug -` (fst ` set occ)"
    by (auto simp: pending_def)
  ultimately show ?thesis by (rule rev_finite_subset)
qed

function slug_loop :: "occurrences \<Rightarrow> string \<Rightarrow> string \<Rightarrow> string \<times> occurrences" where
  "slug_loop occ originalSlug result =
     (if map_of occ result \<noteq> None then
        (case map_of occ originalSlug of
           None \<Rightarrow> (result, occ)
         | Some n \<Rightarrow>
             slug_loop (AList.update originalSlug (n + 1) occ) originalSlug
               (numbered originalSlug (n + 1)))
      else (result, AList.update result 0 occ))"
  by pat_completeness auto
termination
proof (relation "measure (\<lambda>(occ, originalSlug, result).
         2 * card (pending occ originalSlug) + (if map_of occ result \<noteq> None then 1 else 0))")
  show "wf (measure (\<lambda>(occ, originalSlug, result).
         2 * card (pending occ originalSlug) + (if map_of occ result \<noteq> None then 1 else 0)))"
    by simp
next
  fix occ :: occurrences and originalSlug result :: string and n :: nat
  assume r: "map_of occ result \<noteq> None" and o: "map_of occ originalSlug = Some n"
  let ?occ' = "AList.update originalSlug (n + 1) occ"
  have "originalSlug \<in> set (map fst occ)"
    using map_of_SomeD [OF o] by force
  then have "map fst ?occ' = map fst occ"
    by (simp add: update_keys)
  then have "set (map fst ?occ') = set (map fst occ)"
    by simp
  then have keys: "fst ` set ?occ' = fst ` set occ"
    by simp
  have sub: "pending ?occ' originalSlug \<subseteq> pending occ originalSlug"
    unfolding pending_def keys using o by (auto simp: update_conv')
  have le: "card (pending ?occ' originalSlug) \<le> card (pending occ originalSlug)"
    by (rule card_mono [OF finite_pending sub])
  show "((?occ', originalSlug, numbered originalSlug (n + 1)), (occ, originalSlug, result))
        \<in> measure (\<lambda>(occ, originalSlug, result).
         2 * card (pending occ originalSlug) + (if map_of occ result \<noteq> None then 1 else 0))"
  proof (cases "map_of ?occ' (numbered originalSlug (n + 1)) \<noteq> None")
    case False
    with r le show ?thesis by simp
  next
    case True
    then have "numbered originalSlug (n + 1) \<in> fst ` set occ"
      using keys by (metis map_of_eq_None_iff)
    then have "n + 1 \<in> pending occ originalSlug"
      using o by (simp add: pending_def)
    moreover have "n + 1 \<notin> pending ?occ' originalSlug"
      unfolding pending_def keys by (simp add: update_conv')
    ultimately have "pending ?occ' originalSlug \<subset> pending occ originalSlug"
      using sub by blast
    then have "card (pending ?occ' originalSlug) < card (pending occ originalSlug)"
      by (rule psubset_card_mono [OF finite_pending])
    with r True show ?thesis by simp
  qed
qed

declare slug_loop.simps [simp del]

definition slug :: "(string \<Rightarrow> string) \<Rightarrow> occurrences \<Rightarrow> string \<Rightarrow> string \<times> occurrences" where
  "slug norm occ val = (let result = norm val in slug_loop occ result result)"

section \<open>The index builder: text, questions and sections of a document\<close>

record doc_section =
  s_id :: string
  s_title :: string
  s_depth :: nat
  s_content :: string

text \<open>
  The inner loop of \<^verbatim>\<open>extractSections\<close>: from \<open>lookahead\<close> on, the trimmed non-empty
  texts of the paragraphs among the top-level nodes, until a heading of depth at most
  \<open>d\<close> (the depth of the section's heading), three paragraphs, or the end.
\<close>

function collect :: "node list \<Rightarrow> nat \<Rightarrow> nat \<Rightarrow> string list \<Rightarrow> string list" where
  "collect cs d lookahead paragraphs =
     (if lookahead < length cs then
        (let sibling = cs ! lookahead in
         if ntype sibling = ''heading'' \<and> depth sibling \<le> d then paragraphs
         else
           (let paragraphs' =
              (if ntype sibling = ''paragraph'' then
                 (let text = trim (toString sibling) in
                  if text \<noteq> [] then paragraphs @ [text] else paragraphs)
               else paragraphs)
            in if length paragraphs' \<ge> 3 then paragraphs'
               else collect cs d (lookahead + 1) paragraphs'))
      else paragraphs)"
  by pat_completeness auto
termination
  by (relation "measure (\<lambda>(cs, d, lookahead, paragraphs). length cs - lookahead)") auto

declare collect.simps [simp del]

text \<open>The outer loop of \<^verbatim>\<open>extractSections\<close>, with the slugger and the sections so far.\<close>

function sections_loop ::
  "(string \<Rightarrow> string) \<Rightarrow> node list \<Rightarrow> nat \<Rightarrow> occurrences \<Rightarrow> doc_section list \<Rightarrow> doc_section list" where
  "sections_loop norm cs index slugger sections =
     (if index < length cs then
        (let node = cs ! index in
         if ntype node = ''heading'' \<and> depth node \<le> 4 then
           (let title = trim (toString node) in
            if title = [] then sections_loop norm cs (index + 1) slugger sections
            else
              (let (id, slugger') = slug norm slugger title;
                   paragraphs = collect cs (depth node) (index + 1) []
               in sections_loop norm cs (index + 1) slugger'
                    (sections @ [\<lparr>s_id = id, s_title = title, s_depth = depth node,
                                  s_content = join '' '' paragraphs\<rparr>])))
         else sections_loop norm cs (index + 1) slugger sections)
      else sections)"
  by pat_completeness auto
termination
  by (relation "measure (\<lambda>(norm, cs, index, slugger, sections). length cs - index)") auto

declare sections_loop.simps [simp del]

definition extractSections :: "(string \<Rightarrow> string) \<Rightarrow> node \<Rightarrow> doc_section list" where
  "extractSections norm tree = sections_loop norm (children tree) 0 [] []"

definition markdownToText :: "node \<Rightarrow> string" where
  "markdownToText tree =
     join [CHR 0x0A]
       (visit (is_type ''paragraph'')
          (\<lambda>node paragraphs.
             let paragraph = trim (collapse_ws (toString node))
             in if paragraph \<noteq> [] then paragraphs @ [paragraph] else paragraphs)
          tree [])"

definition extractQuestions :: "node \<Rightarrow> string list" where
  "extractQuestions tree =
     visit (is_type ''paragraph'')
       (\<lambda>node questions.
          let text = trim (toString node)
          in if endsWith text ''?'' then questions @ [text] else questions)
       tree []"

section \<open>The renderer: headings of a document\<close>

record heading =
  h_id :: string
  h_text :: string
  h_depth :: nat

text \<open>
  The inner visit of \<^verbatim>\<open>extractHeadings\<close> appends the \<^verbatim>\<open>value\<close> of every text node below
  the heading; appending a missing value appends \<^verbatim>\<open>undefined\<close>.
\<close>

definition value_of :: "node \<Rightarrow> string" where
  "value_of textNode = (case nvalue textNode of Some s \<Rightarrow> s | None \<Rightarrow> ''undefined'')"

definition heading_text :: "node \<Rightarrow> string" where
  "heading_text node =
     visit (is_type ''text'') (\<lambda>textNode text. text @ value_of textNode) node []"

definition heading_visitor ::
  "(string \<Rightarrow> string) \<Rightarrow> node \<Rightarrow> occurrences \<times> heading list \<Rightarrow> occurrences \<times> heading list" where
  "heading_visitor norm node st =
     (case st of (slugger, headings) \<Rightarrow>
        if depth node < 2 \<or> depth node > 3 then (slugger, headings)
        else
          (let text = heading_text node in
           if length (trim text) = 0 then (slugger, headings)
           else
             (let (id, slugger') = slug norm slugger text
              in (slugger', headings @ [\<lparr>h_id = id, h_text = text, h_depth = depth node\<rparr>]))))"

definition extractHeadings :: "(string \<Rightarrow> string) \<Rightarrow> node \<Rightarrow> heading list" where
  "extractHeadings norm tree =
     snd (visit (is_type ''heading'') (heading_visitor norm) tree ([], []))"

section \<open>Example documents\<close>

text \<open>
  The normalisation of github-slugger on ASCII text, to run the definitions on examples:
  upper case letters become lower case, every character other than a letter, a digit,
  \<^verbatim>\<open>_\<close>, \<^verbatim>\<open>-\<close> and space is removed, and each space becomes \<^verbatim>\<open>-\<close>.
\<close>

definition lower_char :: "char \<Rightarrow> char" where
  "lower_char c =
     (let n = (of_char c :: nat) in if 65 \<le> n \<and> n \<le> 90 then char_of (n + 32) else c)"

definition keep_char :: "char \<Rightarrow> bool" where
  "keep_char c =
     (let n = (of_char c :: nat)
      in n = 32 \<or> n = 45 \<or> (48 \<le> n \<and> n \<le> 57) \<or> n = 95 \<or> (97 \<le> n \<and> n \<le> 122))"

definition ascii_slug :: "string \<Rightarrow> string" where
  "ascii_slug s =
     map (\<lambda>c. if c = CHR 0x20 then CHR ''-'' else c) (filter keep_char (map lower_char s))"

definition text_node :: "string \<Rightarrow> node" where
  "text_node s = Node ''text'' 0 (Some s) None []"

definition code_node :: "string \<Rightarrow> node" where
  "code_node s = Node ''inlineCode'' 0 (Some s) None []"

definition heading_node :: "nat \<Rightarrow> node list \<Rightarrow> node" where
  "heading_node d cs = Node ''heading'' d None None cs"

definition paragraph_node :: "node list \<Rightarrow> node" where
  "paragraph_node cs = Node ''paragraph'' 0 None None cs"

definition blockquote_node :: "node list \<Rightarrow> node" where
  "blockquote_node cs = Node ''blockquote'' 0 None None cs"

definition root_node :: "node list \<Rightarrow> node" where
  "root_node cs = Node ''root'' 0 None None cs"

section \<open>Reading the tree as a list\<close>

text \<open>The nodes of a tree in document order: a node, then the nodes of its children.\<close>

fun nodes_of :: "node \<Rightarrow> node list" where
  "nodes_of (Node t d v a cs) = Node t d v a cs # concat (map nodes_of cs)"

text \<open>The line a paragraph contributes to the body, and the body made of given paragraphs.\<close>

definition paragraph_line :: "node \<Rightarrow> string" where
  "paragraph_line node = trim (collapse_ws (toString node))"

definition body_of :: "node list \<Rightarrow> string" where
  "body_of paragraphs =
     join [CHR 0x0A] (filter (\<lambda>line. line \<noteq> []) (map paragraph_line paragraphs))"

definition top_level_paragraphs :: "node \<Rightarrow> node list" where
  "top_level_paragraphs tree = filter (is_type ''paragraph'') (children tree)"

definition all_paragraphs :: "node \<Rightarrow> node list" where
  "all_paragraphs tree = filter (is_type ''paragraph'') (nodes_of tree)"

text \<open>A paragraph, then a block quote that holds a paragraph.\<close>

definition doc_quote :: node where
  "doc_quote =
     root_node [paragraph_node [text_node ''a  b''],
                blockquote_node [paragraph_node [text_node ''x'']]]"


section \<open>Sections and the nodes they are made of\<close>

text \<open>
  A top-level node opens a section when it is a heading of depth at most 4 whose trimmed
  text is not empty.
\<close>

definition opens_section :: "node \<Rightarrow> bool" where
  "opens_section c = (ntype c = ''heading'' \<and> depth c \<le> 4 \<and> trim (toString c) \<noteq> [])"

definition section_indices :: "node list \<Rightarrow> nat list" where
  "section_indices cs = filter (\<lambda>i. opens_section (cs ! i)) [0..<length cs]"

text \<open>
  Node \<open>j\<close> closes the section of heading \<open>i\<close> when it is a heading of depth at most
  that of \<open>i\<close>. Node \<open>p\<close> is in the section of heading \<open>i\<close> when it comes after \<open>i\<close> and
  no node after \<open>i\<close> up to \<open>p\<close> closes the section.
\<close>

definition closes :: "node list \<Rightarrow> nat \<Rightarrow> nat \<Rightarrow> bool" where
  "closes cs i j = (ntype (cs ! j) = ''heading'' \<and> depth (cs ! j) \<le> depth (cs ! i))"

definition in_section :: "node list \<Rightarrow> nat \<Rightarrow> nat \<Rightarrow> bool" where
  "in_section cs i p =
     (i < p \<and> p < length cs \<and> (\<forall>j \<in> set [Suc i..<Suc p]. \<not> closes cs i j))"

definition lead_paragraphs :: "node list \<Rightarrow> nat \<Rightarrow> nat list \<Rightarrow> bool" where
  "lead_paragraphs cs i ps =
     (length ps \<le> 3 \<and> sorted_wrt (<) ps \<and>
      (\<forall>p \<in> set ps. in_section cs i p \<and> ntype (cs ! p) = ''paragraph''))"

text \<open>Section \<open>s\<close> is the section of the heading at index \<open>i\<close>.\<close>

definition section_at :: "node list \<Rightarrow> doc_section \<Rightarrow> nat \<Rightarrow> bool" where
  "section_at cs s i =
     (s_title s = trim (toString (cs ! i)) \<and> s_depth s = depth (cs ! i) \<and>
      (\<exists>ps. lead_paragraphs cs i ps \<and>
            s_content s = join '' '' (map (\<lambda>p. trim (toString (cs ! p))) ps)))"

text \<open>Two sections with a subsection between them.\<close>

definition doc_retry :: node where
  "doc_retry = root_node
     [heading_node 2 [text_node ''Retry Policy''],
      paragraph_node [text_node ''First.''],
      heading_node 3 [text_node ''Details''],
      paragraph_node [text_node ''Second.''],
      heading_node 2 [text_node ''Deeper''],
      paragraph_node [text_node ''Third.'']]"

section \<open>Headings seen by the index builder and by the renderer\<close>

text \<open>What identifies a section and a heading: id, text and depth.\<close>

definition section_key :: "doc_section \<Rightarrow> string \<times> string \<times> nat" where
  "section_key s = (s_id s, s_title s, s_depth s)"

definition heading_key :: "heading \<Rightarrow> string \<times> string \<times> nat" where
  "heading_key h = (h_id h, h_text h, h_depth h)"

text \<open>
  A title and a section of the same name (\<^verbatim>\<open># Overview\<close>, \<^verbatim>\<open>## Overview\<close>); a heading
  that ends in inline code (\<^verbatim>\<open>## Using `git`\<close>).
\<close>

definition doc_dup :: node where
  "doc_dup =
     root_node [heading_node 1 [text_node ''Overview''], heading_node 2 [text_node ''Overview'']]"

definition doc_code :: node where
  "doc_code = root_node [heading_node 2 [text_node ''Using '', code_node ''git'']]"

section \<open>The search client: expanding the index\<close>

record SectionEntry =
  se_id :: string
  se_title :: string
  se_depth :: nat
  se_content :: string

record SearchIndexDoc =
  d_slug :: string
  d_title :: string
  d_summary :: string
  d_tags :: "string list"
  d_body :: string
  d_questions :: "string list option"
  d_sections :: "SectionEntry list option"

datatype entry_type = Doc | Section

record SearchEntry =
  e_type :: entry_type
  e_slug :: string
  e_title :: string
  e_summary :: string
  e_tags :: "string list"
  e_body :: string
  e_questions :: "string list option"
  e_sectionId :: "string option"
  e_sectionTitle :: "string option"
  e_sectionContent :: "string option"

text \<open>
  \<^verbatim>\<open>docs.forEach\<close> pushes the document's entry, then \<^verbatim>\<open>doc.sections?.forEach\<close> pushes one
  entry per section when the document has a \<^verbatim>\<open>sections\<close> array. A field that an object
  literal leaves out is absent: \<open>None\<close>.
\<close>

definition expandEntries :: "SearchIndexDoc list \<Rightarrow> SearchEntry list" where
  "expandEntries docs =
     fold (\<lambda>doc expanded.
             let expanded' = expanded @
                   [\<lparr>e_type = Doc, e_slug = d_slug doc, e_title = d_title doc,
                     e_summary = d_summary doc, e_tags = d_tags doc, e_body = d_body doc,
                     e_questions = d_questions doc,
                     e_sectionId = None, e_sectionTitle = None, e_sectionContent = None\<rparr>]
             in case d_sections doc of
                  None \<Rightarrow> expanded'
                | Some sections \<Rightarrow>
                    fold (\<lambda>section expanded. expanded @
                            [\<lparr>e_type = Section, e_slug = d_slug doc, e_title = d_title doc,
                              e_summary = d_summary doc, e_tags = d_tags doc,
                              e_body = d_body doc, e_questions = d_questions doc,
                              e_sectionId = Some (se_id section),
                              e_sectionTitle = Some (se_title section),
                              e_sectionContent = Some (se_content section)\<rparr>])
                      sections expanded')
       docs []"

text \<open>The sections of a document of the index, none when it has no \<^verbatim>\<open>sections\<close> array.\<close>

definition sections_of :: "SearchIndexDoc \<Rightarrow> SectionEntry list" where
  "sections_of doc = (case d_sections doc of None \<Rightarrow> [] | Some sections \<Rightarrow> sections)"

section \<open>The search client: the search bar\<close>

text \<open>
  The state of the component \<^verbatim>\<open>SearchBar\<close>: the reference to the fuzzy index (the
  entries it was built over, unset at first), the three state variables, and the
  pending timeout with the query that its callback closed over. Two more fields record
  what the component did: the queries passed to the index's \<^verbatim>\<open>search\<close>, in order, and
  the lines written to the console.
\<close>

record search_bar =
  fuseRef :: "SearchEntry list option"
  query :: string
  results :: "SearchEntry list"
  loading :: bool
  timer :: "string option"
  searched :: "string list"
  console :: "string list"

text \<open>
  What the awaited steps of \<^verbatim>\<open>loadIndex\<close> come to: \<^verbatim>\<open>fetch\<close> rejects (a network
  error), or it resolves with the flag \<^verbatim>\<open>res.ok\<close>, the documents that \<^verbatim>\<open>res.json()\<close>
  resolves to (none when it rejects) and whether the import of the fuzzy-search module
  resolves.
\<close>

datatype load_outcome =
  FetchRejects
| FetchResolves bool "SearchIndexDoc list option" bool

definition log_failure :: "search_bar \<Rightarrow> search_bar" where
  "log_failure s = s\<lparr>console := console s @ [''Failed to load search index'']\<rparr>"

fun loadIndex :: "load_outcome \<Rightarrow> search_bar \<Rightarrow> search_bar" where
  "loadIndex FetchRejects s = log_failure s"
| "loadIndex (FetchResolves ok body imported) s =
     (if \<not> ok then s
      else case body of
             None \<Rightarrow> log_failure s
           | Some docs \<Rightarrow>
               if imported then s\<lparr>fuseRef := Some (expandEntries docs)\<rparr> else log_failure s)"

text \<open>
  The effect that depends on the query, and its cleanup. The effect schedules the search
  120 ms ahead unless the index is unset or the trimmed query is empty; the cleanup clears
  the timeout.
\<close>

definition run_effect :: "search_bar \<Rightarrow> search_bar" where
  "run_effect s =
     (if fuseRef s = None \<or> length (trim (query s)) = 0 then s\<lparr>results := []\<rparr>
      else s\<lparr>loading := True, timer := Some (query s)\<rparr>)"

definition cleanup :: "search_bar \<Rightarrow> search_bar" where
  "cleanup s = s\<lparr>timer := None\<rparr>"

text \<open>
  \<^verbatim>\<open>setQuery\<close>: a value equal to the current one changes nothing and runs no effect;
  otherwise the component renders again, the cleanup of the previous effect runs, then
  the effect.
\<close>

definition setQuery :: "string \<Rightarrow> search_bar \<Rightarrow> search_bar" where
  "setQuery q s = (if q = query s then s else run_effect ((cleanup s)\<lparr>query := q\<rparr>))"

text \<open>
  The callback of the timeout, with the index's method
  \<^verbatim>\<open>search(query, { limit: 30 })\<close> as the parameter \<open>search\<close>.
\<close>

definition timer_fires ::
  "(SearchEntry list \<Rightarrow> string \<Rightarrow> nat \<Rightarrow> SearchEntry list) \<Rightarrow> search_bar \<Rightarrow> search_bar" where
  "timer_fires search s =
     (case timer s of
        None \<Rightarrow> s
      | Some q \<Rightarrow>
          (case fuseRef s of
             None \<Rightarrow> s\<lparr>results := [], loading := False, timer := None\<rparr>
           | Some fuse \<Rightarrow>
               s\<lparr>results := search fuse q 30, loading := False, timer := None,
                 searched := searched s @ [q]\<rparr>))"

text \<open>The click on a result: \<^verbatim>\<open>setQuery('')\<close>, \<^verbatim>\<open>setResults([])\<close>.\<close>

definition result_selected :: "search_bar \<Rightarrow> search_bar" where
  "result_selected s = (setQuery [] s)\<lparr>results := []\<rparr>"

datatype event = IndexLoad load_outcome | Keystroke string | TimerFires | ResultSelected

fun step ::
  "(SearchEntry list \<Rightarrow> string \<Rightarrow> nat \<Rightarrow> SearchEntry list) \<Rightarrow> event \<Rightarrow> search_bar \<Rightarrow> search_bar" where
  "step search (IndexLoad outcome) s = loadIndex outcome s"
| "step search (Keystroke q) s = setQuery q s"
| "step search TimerFires s = timer_fires search s"
| "step search ResultSelected s = result_selected s"

definition run ::
  "(SearchEntry list \<Rightarrow> string \<Rightarrow> nat \<Rightarrow> SearchEntry list) \<Rightarrow> event list \<Rightarrow> search_bar \<Rightarrow> search_bar" where
  "run search events s = fold (step search) events s"

text \<open>The component once mounted: the first run of the effect leaves the results empty.\<close>

definition mounted :: search_bar where
  "mounted =
     \<lparr>fuseRef = None, query = [], results = [], loading = False, timer = None,
      searched = [], console = []\<rparr>"

text \<open>A load fails when the fetch rejects or the response is not a success.\<close>

fun fetch_failed :: "load_outcome \<Rightarrow> bool" where
  "fetch_failed FetchRejects = True"
| "fetch_failed (FetchResolves ok body imported) = (\<not> ok)"

fun is_failed_load :: "event \<Rightarrow> bool" where
  "is_failed_load (IndexLoad outcome) = fetch_failed outcome"
| "is_failed_load _ = True"

text \<open>An index that returns the first entries, and one document, to run examples.\<close>

definition first_entries :: "SearchEntry list \<Rightarrow> string \<Rightarrow> nat \<Rightarrow> SearchEntry list" where
  "first_entries entries q limit = take limit entries"

definition kafka_doc :: SearchIndexDoc where
  "kafka_doc =
     \<lparr>d_slug = ''03-kafka'', d_title = ''Kafka Basics'', d_summary = [], d_tags = [],
      d_body = ''Text.'', d_questions = Some [],
      d_sections = Some [\<lparr>se_id = ''retry-policy'', se_title = ''Retry Policy'', se_depth = 2,
                           se_content = ''Text.''\<rparr>]\<rparr>"

definition index_loaded :: event where
  "index_loaded = IndexLoad (FetchResolves True (Some [kafka_doc]) True)"

text \<open>A query is blank when nothing is left of it once trimmed.\<close>

definition blank :: "string \<Rightarrow> bool" where
  "blank q = (trim q = [])"

text \<open>
  Three properties of a state. Quiet: no blank query was ever searched or is scheduled,
  and a blank current query comes with no results and no pending timeout. Unset: no index,
  no results, no search made. Armed: the pending timeout is the one the effect sets for
  the current query.
\<close>

definition quiet :: "search_bar \<Rightarrow> bool" where
  "quiet s = ((\<forall>q \<in> set (searched s). \<not> blank q) \<and>
              (\<forall>q. timer s = Some q \<longrightarrow> \<not> blank q) \<and>
              (blank (query s) \<longrightarrow> results s = [] \<and> timer s = None))"

definition unset :: "search_bar \<Rightarrow> bool" where
  "unset s = (fuseRef s = None \<and> results s = [] \<and> searched s = [])"

definition armed :: "search_bar \<Rightarrow> bool" where
  "armed s =
     (timer s = (if fuseRef s \<noteq> None \<and> \<not> blank (query s) then Some (query s) else None))"

section \<open>The index builder: the build\<close>

text \<open>
  A number of JavaScript is an integer, an infinity or \<^verbatim>\<open>NaN\<close> (the YAML of the front
  matter writes them \<^verbatim>\<open>.inf\<close>, \<^verbatim>\<open>-.inf\<close> and \<^verbatim>\<open>.nan\<close>; all pass
  \<^verbatim>\<open>typeof x === 'number'\<close>). Fractions are left out: they subtract and compare as the
  integers do. Subtraction gives \<^verbatim>\<open>NaN\<close> when an operand is \<^verbatim>\<open>NaN\<close> and for an infinity
  minus itself; \<^verbatim>\<open>NaN\<close> and zero are the numbers that count as false.
\<close>

datatype jsnum = Num int | PosInf | NegInf | NaN

fun minus_num :: "jsnum \<Rightarrow> jsnum \<Rightarrow> jsnum" where
  "minus_num (Num a) (Num b) = Num (a - b)"
| "minus_num NaN b = NaN"
| "minus_num a NaN = NaN"
| "minus_num PosInf PosInf = NaN"
| "minus_num NegInf NegInf = NaN"
| "minus_num PosInf b = PosInf"
| "minus_num NegInf b = NegInf"
| "minus_num (Num a) PosInf = NegInf"
| "minus_num (Num a) NegInf = PosInf"

fun truthy :: "jsnum \<Rightarrow> bool" where
  "truthy (Num n) = (n \<noteq> 0)"
| "truthy PosInf = True"
| "truthy NegInf = True"
| "truthy NaN = False"

text \<open>
  A value of the front matter, as the YAML parser gives it; \<open>JObj\<close> stands for any other
  object. A key that is absent reads as \<^verbatim>\<open>undefined\<close>: \<open>None\<close>.
\<close>

datatype jsval = JNull | JBool bool | JNum jsnum | JStr string | JArr "jsval list" | JObj

text \<open>The conversion of a value to a string, as a method that takes a string applies it.\<close>

definition show_int :: "int \<Rightarrow> string" where
  "show_int i = (if i < 0 then ''-'' @ show_nat (nat (- i)) else show_nat (nat i))"

fun num_to_string :: "jsnum \<Rightarrow> string" where
  "num_to_string (Num i) = show_int i"
| "num_to_string PosInf = ''Infinity''"
| "num_to_string NegInf = ''-Infinity''"
| "num_to_string NaN = ''NaN''"

fun to_string :: "jsval \<Rightarrow> string" where
  "to_string JNull = ''null''"
| "to_string (JBool b) = (if b then ''true'' else ''false'')"
| "to_string (JNum n) = num_to_string n"
| "to_string (JStr s) = s"
| "to_string (JArr xs) =
     join '','' (map (\<lambda>x. if x = JNull then [] else to_string x) xs)"
| "to_string JObj = ''[object Object]''"

record frontmatter =
  fm_title :: "jsval option"
  fm_order :: "jsval option"
  fm_summary :: "jsval option"
  fm_tags :: "jsval option"

datatype error = Error string

text \<open>
  What the build reads from its surroundings: the listing of the content directory, the
  files, the front-matter parser \<^verbatim>\<open>matter\<close> (it throws on a malformed front matter), the
  markdown parser, the normalisation of the slugger, and whether \<^verbatim>\<open>mkdir\<close> and
  \<^verbatim>\<open>writeFile\<close> throw.
\<close>

record env =
  readdir :: "error + string list"
  readFile :: "string \<Rightarrow> error + string"
  matter :: "string \<Rightarrow> error + frontmatter \<times> string"
  parse :: "string \<Rightarrow> error + node"
  normalise :: "string \<Rightarrow> string"
  mkdir :: "error option"
  writeFile :: "error option"

record doc_record =
  r_slug :: string
  r_title :: jsval
  r_summary :: jsval
  r_tags :: "jsval list"
  r_order :: jsnum
  r_body :: string
  r_questions :: "string list"
  r_sections :: "doc_section list"

text \<open>\<^verbatim>\<open>SUPPORTED_EXT.some((ext) => file.endsWith(ext))\<close> and \<^verbatim>\<open>file.replace(/\.mdx?$/, '')\<close>.\<close>

definition supported :: "string \<Rightarrow> bool" where
  "supported file = (endsWith file ''.md'' \<or> endsWith file ''.mdx'')"

definition slug_of :: "string \<Rightarrow> string" where
  "slug_of file =
     (if endsWith file ''.mdx'' then take (length file - 4) file
      else if endsWith file ''.md'' then take (length file - 3) file
      else file)"

text \<open>\<^verbatim>\<open>v ?? d\<close>: the default replaces \<^verbatim>\<open>undefined\<close> and \<^verbatim>\<open>null\<close> only.\<close>

definition nullish :: "jsval option \<Rightarrow> jsval \<Rightarrow> jsval" where
  "nullish v d = (case v of None \<Rightarrow> d | Some JNull \<Rightarrow> d | Some x \<Rightarrow> x)"

definition tags_of :: "jsval option \<Rightarrow> jsval list" where
  "tags_of v = (case v of Some (JArr xs) \<Rightarrow> xs | _ \<Rightarrow> [])"

definition order_of :: "jsval option \<Rightarrow> jsnum" where
  "order_of v = (case v of Some (JNum n) \<Rightarrow> n | _ \<Rightarrow> Num 999)"

text \<open>
  The body of the loop over the files: read, split the front matter, parse the content
  (each of the three extractors parses the same content), build the record.
\<close>

definition file_record :: "env \<Rightarrow> string \<Rightarrow> error + doc_record" where
  "file_record env file =
     (case readFile env file of
        Inl e \<Rightarrow> Inl e
      | Inr raw \<Rightarrow>
          (case matter env raw of
             Inl e \<Rightarrow> Inl e
           | Inr (data, content) \<Rightarrow>
               (case parse env content of
                  Inl e \<Rightarrow> Inl e
                | Inr tree \<Rightarrow>
                    (let slug = slug_of file;
                         body = markdownToText tree;
                         questions = extractQuestions tree;
                         sections = extractSections (normalise env) tree
                     in Inr \<lparr>r_slug = slug,
                             r_title = nullish (fm_title data) (JStr slug),
                             r_summary = nullish (fm_summary data) (JStr []),
                             r_tags = tags_of (fm_tags data),
                             r_order = order_of (fm_order data),
                             r_body = body,
                             r_questions = questions,
                             r_sections = sections\<rparr>))))"

fun build_docs :: "env \<Rightarrow> string list \<Rightarrow> doc_record list \<Rightarrow> error + doc_record list" where
  "build_docs env [] docs = Inr docs"
| "build_docs env (file # files) docs =
     (case file_record env file of
        Inl e \<Rightarrow> Inl e
      | Inr r \<Rightarrow> build_docs env files (docs @ [r]))"

text \<open>
  \<^verbatim>\<open>String.prototype.localeCompare\<close> in the default locale follows the Unicode collation.
  Strings are compared first by their letters and digits whatever the case, the space
  before the digits and the digits before the letters; strings that are equal that far
  are compared by case, lower case before upper case at the first difference. So
  \<^verbatim>\<open>a\<close>, \<^verbatim>\<open>b\<close>, \<^verbatim>\<open>B\<close>, \<^verbatim>\<open>Z\<close> are in order. The model is for strings of ASCII letters,
  digits and spaces; it places any other character between the space and the digits, by
  code unit, which is a choice of the model. The result is - 1, 0 or 1.
\<close>

fun lex_compare :: "nat list \<Rightarrow> nat list \<Rightarrow> int" where
  "lex_compare [] [] = 0"
| "lex_compare [] (y # ys) = - 1"
| "lex_compare (x # xs) [] = 1"
| "lex_compare (x # xs) (y # ys) =
     (if x < y then - 1 else if y < x then 1 else lex_compare xs ys)"

definition primary :: "char \<Rightarrow> nat" where
  "primary c =
     (let n = (of_char c :: nat)
      in if n = 32 then 0
         else if 48 \<le> n \<and> n \<le> 57 then 300 + (n - 48)
         else if 65 \<le> n \<and> n \<le> 90 then 400 + (n - 65)
         else if 97 \<le> n \<and> n \<le> 122 then 400 + (n - 97)
         else 1 + n)"

definition tertiary :: "char \<Rightarrow> nat" where
  "tertiary c = (let n = (of_char c :: nat) in if 65 \<le> n \<and> n \<le> 90 then 1 else 0)"

definition localeCompare :: "string \<Rightarrow> string \<Rightarrow> int" where
  "localeCompare s t =
     (if lex_compare (map primary s) (map primary t) \<noteq> 0
      then lex_compare (map primary s) (map primary t)
      else lex_compare (map tertiary s) (map tertiary t))"

text \<open>
  \<^verbatim>\<open>(a, b) => a.order - b.order || a.title.localeCompare(b.title)\<close>: a difference that
  is zero or \<^verbatim>\<open>NaN\<close> gives way to the titles. A title that is not a string has no method
  \<^verbatim>\<open>localeCompare\<close>, and the call throws; the argument is converted to a string.
\<close>

definition compare_docs :: "doc_record \<Rightarrow> doc_record \<Rightarrow> error + jsnum" where
  "compare_docs a b =
     (if truthy (minus_num (r_order a) (r_order b)) then Inr (minus_num (r_order a) (r_order b))
      else (case r_title a of
              JStr s \<Rightarrow> Inr (Num (localeCompare s (to_string (r_title b))))
            | _ \<Rightarrow> Inl (Error ''a.title.localeCompare is not a function'')))"

text \<open>
  \<^verbatim>\<open>Array.prototype.sort\<close> with a comparator, as the engine of Node runs it on an array of
  fewer than 64 elements. The engine reads the comparator's number with \<^verbatim>\<open>NaN\<close> as zero
  and looks at its sign only. It takes the longest run from the start of the array that
  is ascending, or strictly descending (then it reverses it), comparing each element with
  the one before it; then it inserts each remaining element into the sorted part at the
  place a binary search finds, comparing the element with the middle of the range. A
  comparator that throws ends the sort. On 64 elements or more the engine merges runs and
  compares other pairs; it returns the same array whenever the comparator does not throw
  and is consistent.
\<close>

fun sign_of :: "jsnum \<Rightarrow> int" where
  "sign_of (Num n) = n"
| "sign_of PosInf = 1"
| "sign_of NegInf = - 1"
| "sign_of NaN = 0"

definition engine_compare :: "('a \<Rightarrow> 'a \<Rightarrow> error + jsnum) \<Rightarrow> 'a \<Rightarrow> 'a \<Rightarrow> error + int" where
  "engine_compare cmp x y = (case cmp x y of Inl e \<Rightarrow> Inl e | Inr v \<Rightarrow> Inr (sign_of v))"

fun run_length ::
  "('a \<Rightarrow> 'a \<Rightarrow> error + jsnum) \<Rightarrow> bool \<Rightarrow> 'a \<Rightarrow> 'a list \<Rightarrow> nat \<Rightarrow> error + nat" where
  "run_length cmp isDescending previousElement [] runLength = Inr runLength"
| "run_length cmp isDescending previousElement (currentElement # rest) runLength =
     (case engine_compare cmp currentElement previousElement of
        Inl e \<Rightarrow> Inl e
      | Inr order \<Rightarrow>
          if (if isDescending then order \<ge> 0 else order < 0) then Inr runLength
          else run_length cmp isDescending currentElement rest (runLength + 1))"

definition count_and_make_run ::
  "('a \<Rightarrow> 'a \<Rightarrow> error + jsnum) \<Rightarrow> 'a list \<Rightarrow> error + nat \<times> 'a list" where
  "count_and_make_run cmp xs =
     (case xs of
        elementHigh # elementLow # rest \<Rightarrow>
          (case engine_compare cmp elementLow elementHigh of
             Inl e \<Rightarrow> Inl e
           | Inr order \<Rightarrow>
               (case run_length cmp (order < 0) elementLow rest 2 of
                  Inl e \<Rightarrow> Inl e
                | Inr runLength \<Rightarrow>
                    Inr (runLength,
                         if order < 0 then rev (take runLength xs) @ drop runLength xs
                         else xs)))
      | _ \<Rightarrow> Inr (length xs, xs))"

function binary_search ::
  "('a \<Rightarrow> 'a \<Rightarrow> error + jsnum) \<Rightarrow> 'a \<Rightarrow> 'a list \<Rightarrow> nat \<Rightarrow> nat \<Rightarrow> error + nat" where
  "binary_search cmp pivot work left right =
     (if left < right then
        (case engine_compare cmp pivot (work ! (left + (right - left) div 2)) of
           Inl e \<Rightarrow> Inl e
         | Inr order \<Rightarrow>
             if order < 0 then binary_search cmp pivot work left (left + (right - left) div 2)
             else binary_search cmp pivot work (left + (right - left) div 2 + 1) right)
      else Inr left)"
  by pat_completeness auto
termination
  by (relation "measure (\<lambda>(cmp, pivot, work, left, right). right - left)") auto

declare binary_search.simps [simp del]

fun binary_insertion ::
  "('a \<Rightarrow> 'a \<Rightarrow> error + jsnum) \<Rightarrow> 'a list \<Rightarrow> 'a list \<Rightarrow> error + 'a list" where
  "binary_insertion cmp work [] = Inr work"
| "binary_insertion cmp work (pivot # rest) =
     (case binary_search cmp pivot work 0 (length work) of
        Inl e \<Rightarrow> Inl e
      | Inr left \<Rightarrow>
          binary_insertion cmp (take left work @ [pivot] @ drop left work) rest)"

definition sort_by :: "('a \<Rightarrow> 'a \<Rightarrow> error + jsnum) \<Rightarrow> 'a list \<Rightarrow> error + 'a list" where
  "sort_by cmp xs =
     (if length xs < 2 then Inr xs
      else (case count_and_make_run cmp xs of
              Inl e \<Rightarrow> Inl e
            | Inr (runLength, ys) \<Rightarrow>
                binary_insertion cmp (take runLength ys) (drop runLength ys)))"

text \<open>
  What a run of the build comes to: the exit code of the process, the lines logged, and the
  array handed to \<^verbatim>\<open>writeFile\<close> for the output file, if the build got that far.
\<close>

datatype log_line = Info string | Failure string error

record outcome =
  exit_code :: nat
  logged :: "log_line list"
  written :: "doc_record list option"

definition aborted :: "error \<Rightarrow> doc_record list option \<Rightarrow> outcome" where
  "aborted e w =
     \<lparr>exit_code = 1, logged = [Failure ''Failed to build search index'' e], written = w\<rparr>"

definition buildIndex :: "env \<Rightarrow> outcome" where
  "buildIndex env =
     (case readdir env of
        Inl e \<Rightarrow> aborted e None
      | Inr entries \<Rightarrow>
          (let files = filter supported entries in
           case build_docs env files [] of
             Inl e \<Rightarrow> aborted e None
           | Inr docs \<Rightarrow>
               (case sort_by compare_docs docs of
                  Inl e \<Rightarrow> aborted e None
                | Inr sorted_docs \<Rightarrow>
                    (case mkdir env of
                       Some e \<Rightarrow> aborted e None
                     | None \<Rightarrow>
                         (case writeFile env of
                            Some e \<Rightarrow> aborted e (Some sorted_docs)
                          | None \<Rightarrow>
                              \<lparr>exit_code = 0,
                               logged = [Info (''Search index generated with '' @
                                          show_nat (length sorted_docs) @ '' entries.'')],
                               written = Some sorted_docs\<rparr>)))))"

section \<open>The renderer: the listing of the documents\<close>

record doc_meta =
  m_title :: string
  m_order :: jsnum
  m_summary :: jsval
  m_tags :: "jsval list"
  m_slug :: string

definition slugFromFilename :: "string \<Rightarrow> string" where
  "slugFromFilename filename =
     (case find (\<lambda>extension. endsWith filename extension) [''.md'', ''.mdx''] of
        Some ext \<Rightarrow> take (length filename - length ext) filename
      | None \<Rightarrow> filename)"

text \<open>
  The body of the loop of \<^verbatim>\<open>getAllDocsMeta\<close>: it throws unless the title is a non-empty
  string and the order a number.
\<close>

definition file_meta :: "env \<Rightarrow> string \<Rightarrow> error + doc_meta" where
  "file_meta env filename =
     (case readFile env filename of
        Inl e \<Rightarrow> Inl e
      | Inr raw \<Rightarrow>
          (case matter env raw of
             Inl e \<Rightarrow> Inl e
           | Inr (data, content) \<Rightarrow>
               (case fm_title data of
                  Some (JStr t) \<Rightarrow>
                    if t = [] then
                      Inl (Error (''Missing required frontmatter \"title\" in '' @ filename))
                    else
                      (case fm_order data of
                         Some (JNum n) \<Rightarrow>
                           Inr \<lparr>m_title = t, m_order = n,
                                m_summary = nullish (fm_summary data) (JStr []),
                                m_tags = tags_of (fm_tags data),
                                m_slug = slugFromFilename filename\<rparr>
                       | _ \<Rightarrow>
                           Inl (Error (''Missing required numeric frontmatter \"order\" in ''
                                       @ filename)))
                | _ \<Rightarrow> Inl (Error (''Missing required frontmatter \"title\" in '' @ filename)))))"

fun metas_loop :: "env \<Rightarrow> string list \<Rightarrow> doc_meta list \<Rightarrow> error + doc_meta list" where
  "metas_loop env [] metas = Inr metas"
| "metas_loop env (filename # filenames) metas =
     (case file_meta env filename of
        Inl e \<Rightarrow> Inl e
      | Inr m \<Rightarrow> metas_loop env filenames (metas @ [m]))"

definition compare_metas :: "doc_meta \<Rightarrow> doc_meta \<Rightarrow> error + jsnum" where
  "compare_metas a b =
     (if truthy (minus_num (m_order a) (m_order b)) then Inr (minus_num (m_order a) (m_order b))
      else Inr (Num (localeCompare (m_title a) (m_title b))))"

definition getAllDocsMeta :: "env \<Rightarrow> error + doc_meta list" where
  "getAllDocsMeta env =
     (case readdir env of
        Inl e \<Rightarrow> Inl e
      | Inr entries \<Rightarrow>
          (case metas_loop env (filter supported entries) [] of
             Inl e \<Rightarrow> Inl e
           | Inr metas \<Rightarrow> sort_by compare_metas metas))"

definition getAllDocSlugs :: "env \<Rightarrow> error + string list" where
  "getAllDocSlugs env =
     (case getAllDocsMeta env of Inl e \<Rightarrow> Inl e | Inr metas \<Rightarrow> Inr (map m_slug metas))"


section \<open>Notions for the properties of the build\<close>

text \<open>
  A file fails when reading it throws, or \<^verbatim>\<open>matter\<close> throws on what was read, or the
  markdown parser throws on the content.
\<close>

definition file_fails :: "env \<Rightarrow> string \<Rightarrow> bool" where
  "file_fails env file =
     (case readFile env file of
        Inl e \<Rightarrow> True
      | Inr raw \<Rightarrow>
          (case matter env raw of
             Inl e \<Rightarrow> True
           | Inr (data, content) \<Rightarrow>
               (case parse env content of Inl e \<Rightarrow> True | Inr tree \<Rightarrow> False)))"







text \<open>
  What \<^verbatim>\<open>getAllDocsMeta\<close> rejects: a title that is not a non-empty string, an order that
  is not a number. The title that \<^verbatim>\<open>??\<close> replaces: an absent or null one.
\<close>

definition lacks_title :: "frontmatter \<Rightarrow> bool" where
  "lacks_title data = (case fm_title data of Some (JStr t) \<Rightarrow> t = [] | _ \<Rightarrow> True)"

definition lacks_order :: "frontmatter \<Rightarrow> bool" where
  "lacks_order data = (case fm_order data of Some (JNum n) \<Rightarrow> False | _ \<Rightarrow> True)"

definition title_absent :: "frontmatter \<Rightarrow> bool" where
  "title_absent data = (fm_title data = None \<or> fm_title data = Some JNull)"

section \<open>Example content directories\<close>

text \<open>
  A content directory given by its files, each with its front matter, or with none when
  the file cannot be read. The raw text of a file is its name; \<^verbatim>\<open>matter\<close> gives the front
  matter of the file and the name as content; every content parses to \<open>doc_retry\<close>.
\<close>

definition fm :: "jsval option \<Rightarrow> jsval option \<Rightarrow> frontmatter" where
  "fm t ord = \<lparr>fm_title = t, fm_order = ord, fm_summary = None, fm_tags = None\<rparr>"

definition site :: "(string \<times> frontmatter option) list \<Rightarrow> env" where
  "site files =
     \<lparr>readdir = Inr (map fst files),
      readFile = (\<lambda>file. case map_of files file of
                          Some (Some data) \<Rightarrow> Inr file
                        | _ \<Rightarrow> Inl (Error ''EACCES'')),
      matter = (\<lambda>raw. case map_of files raw of
                        Some (Some data) \<Rightarrow> Inr (data, raw)
                      | _ \<Rightarrow> Inl (Error ''bad front matter'')),
      parse = (\<lambda>content. Inr doc_retry),
      normalise = ascii_slug,
      mkdir = None,
      writeFile = None\<rparr>"




definition site_broken :: env where
  "site_broken = site
     [(''kafka.md'', Some (fm (Some (JStr ''Kafka'')) (Some (JNum (Num 3))))),
      (''broken.md'', None)]"

definition site_draft :: env where
  "site_draft = site
     [(''kafka.md'', Some (fm (Some (JStr ''Kafka'')) (Some (JNum (Num 3))))),
      (''draft.md'', Some (fm None None))]"

definition site_number :: env where
  "site_number = site [(''a.md'', Some (fm (Some (JNum (Num 42))) (Some (JNum (Num 1)))))]"

section \<open>The walk of the tree as a fold\<close>

lemma fold_concat:
  "(\<And>x s. x \<in> set xs \<Longrightarrow> g x s = fold f (filter p (h x)) s) \<Longrightarrow>
   fold g xs s = fold f (filter p (concat (map h xs))) s"
  by (induction xs arbitrary: s) simp_all

lemma visit_fold:
  "visit test visitor n s = fold visitor (filter test (nodes_of n)) s"
proof (induction n arbitrary: s)
  case (Node t d v a cs)
  have "fold (visit test visitor) cs s' = fold visitor (filter test (concat (map nodes_of cs))) s'"
    for s'
    by (rule fold_concat) (rule Node.IH)
  then show ?case by simp
qed

lemma fold_push:
  "fold (\<lambda>x acc. if p x then acc @ [f x] else acc) xs acc = acc @ map f (filter p xs)"
  by (induction xs arbitrary: acc) simp_all

section \<open>Unfolding the loop of the section extractor\<close>

lemma sections_loop_end:
  "\<not> index < length cs \<Longrightarrow> sections_loop norm cs index slugger sections = sections"
  by (subst sections_loop.simps) simp

lemma sections_loop_skip:
  "index < length cs \<Longrightarrow> \<not> opens_section (cs ! index) \<Longrightarrow>
   sections_loop norm cs index slugger sections =
   sections_loop norm cs (index + 1) slugger sections"
  by (subst sections_loop.simps) (auto simp: opens_section_def Let_def)

lemma sections_loop_push:
  "index < length cs \<Longrightarrow> opens_section (cs ! index) \<Longrightarrow>
   slug norm slugger (trim (toString (cs ! index))) = (sid, slugger') \<Longrightarrow>
   sections_loop norm cs index slugger sections =
   sections_loop norm cs (index + 1) slugger'
     (sections @ [\<lparr>s_id = sid, s_title = trim (toString (cs ! index)),
                   s_depth = depth (cs ! index),
                   s_content = join '' '' (collect cs (depth (cs ! index)) (index + 1) [])\<rparr>])"
  by (subst sections_loop.simps) (simp add: opens_section_def Let_def)


section \<open>The loop over the files and the sort\<close>

lemma file_fails_record: "file_fails env file \<Longrightarrow> \<exists>e. file_record env file = Inl e"
  by (auto simp: file_fails_def file_record_def split: sum.splits prod.splits)

lemma build_docs_fails:
  "\<exists>file \<in> set files. \<exists>e. file_record env file = Inl e \<Longrightarrow> \<exists>e. build_docs env files docs = Inl e"
  by (induction files arbitrary: docs) (auto split: sum.splits)

lemma build_docs_records:
  "build_docs env files docs = Inr result \<Longrightarrow> file \<in> set files \<Longrightarrow>
   \<exists>r. file_record env file = Inr r \<and> r \<in> set result"
proof -
  have acc: "build_docs env fs ds = Inr result \<Longrightarrow> set ds \<subseteq> set result" for fs ds
  proof (induction fs arbitrary: ds)
    case Nil
    then show ?case by simp
  next
    case (Cons f fs)
    from Cons.prems obtain r where "build_docs env fs (ds @ [r]) = Inr result"
      by (auto split: sum.splits)
    from Cons.IH [OF this] show ?case by simp
  qed
  show "build_docs env files docs = Inr result \<Longrightarrow> file \<in> set files \<Longrightarrow>
   \<exists>r. file_record env file = Inr r \<and> r \<in> set result"
  proof (induction files arbitrary: docs)
    case Nil
    then show ?case by simp
  next
    case (Cons f fs)
    from Cons.prems(1) obtain r where r: "file_record env f = Inr r"
      and b: "build_docs env fs (docs @ [r]) = Inr result"
      by (auto split: sum.splits)
    show ?case
    proof (cases "file = f")
      case True
      with r acc [OF b] show ?thesis by auto
    next
      case False
      with Cons.prems(2) have "file \<in> set fs" by simp
      from Cons.IH [OF b this] show ?thesis .
    qed
  qed
qed

lemma set_take_drop: "set (take n xs) \<union> set (drop n xs) = set xs"
  by (metis append_take_drop_id set_append)

lemma engine_compare_Inr:
  "engine_compare cmp x y = Inr k \<Longrightarrow> \<exists>v. cmp x y = Inr v \<and> k = sign_of v"
  by (auto simp: engine_compare_def split: sum.splits)

lemma run_length_bounds:
  "run_length cmp desc prev rest n = Inr m \<Longrightarrow> n \<le> m \<and> m \<le> n + length rest"
proof (induction rest arbitrary: prev n)
  case Nil
  then show ?case by simp
next
  case (Cons cur rest)
  from Cons.prems obtain k where k: "engine_compare cmp cur prev = Inr k"
    by (auto split: sum.splits)
  show ?case
  proof (cases "if desc then k \<ge> 0 else k < 0")
    case True
    with k Cons.prems have "m = n" by (simp split: if_splits)
    then show ?thesis by simp
  next
    case False
    with k Cons.prems have "run_length cmp desc cur rest (n + 1) = Inr m"
      by (simp split: if_splits)
    from Cons.IH [OF this] show ?thesis by simp
  qed
qed

lemma count_and_make_run_cases:
  assumes "count_and_make_run cmp (x0 # x1 # rest) = Inr (n, ys)"
  obtains k where "engine_compare cmp x1 x0 = Inr k"
    and "run_length cmp (k < 0) x1 rest 2 = Inr n"
    and "ys = (if k < 0 then rev (take n (x0 # x1 # rest)) @ drop n (x0 # x1 # rest)
               else x0 # x1 # rest)"
  using assms by (auto simp: count_and_make_run_def split: sum.splits)

lemma count_and_make_run_set:
  "count_and_make_run cmp xs = Inr (n, ys) \<Longrightarrow> set ys = set xs \<and> n \<le> length xs \<and> length ys = length xs"
proof (cases xs)
  case Nil
  assume "count_and_make_run cmp xs = Inr (n, ys)"
  with Nil show ?thesis by (simp add: count_and_make_run_def)
next
  case (Cons x0 xs')
  assume a: "count_and_make_run cmp xs = Inr (n, ys)"
  show ?thesis
  proof (cases xs')
    case Nil
    with a Cons have "n = length xs" "ys = xs" by (auto simp: count_and_make_run_def)
    then show ?thesis by simp
  next
    case (Cons x1 rest)
    note xs = \<open>xs = x0 # xs'\<close> Cons
    have x: "xs = x0 # x1 # rest" using xs by simp
    from a have a': "count_and_make_run cmp (x0 # x1 # rest) = Inr (n, ys)"
      unfolding x .
    from a' obtain k where k: "engine_compare cmp x1 x0 = Inr k"
      and m: "run_length cmp (k < 0) x1 rest 2 = Inr n"
      and r0: "ys = (if k < 0 then rev (take n (x0 # x1 # rest)) @ drop n (x0 # x1 # rest)
                     else x0 # x1 # rest)"
      by (rule count_and_make_run_cases)
    from r0 have r: "ys = (if k < 0 then rev (take n xs) @ drop n xs else xs)"
      unfolding x .
    from run_length_bounds [OF m] have b: "n \<le> length xs" unfolding x by simp
    have "set (rev (take n xs) @ drop n xs) = set xs"
      by (simp add: set_take_drop)
    with r b show ?thesis by simp
  qed
qed

lemma binary_insertion_set:
  "binary_insertion cmp work rest = Inr ys \<Longrightarrow> set ys = set work \<union> set rest"
proof (induction rest arbitrary: work)
  case Nil
  then show ?case by simp
next
  case (Cons pivot rest)
  from Cons.prems obtain left where l: "binary_search cmp pivot work 0 (length work) = Inr left"
    by (auto split: sum.splits)
  with Cons.prems have "binary_insertion cmp (take left work @ [pivot] @ drop left work) rest = Inr ys"
    by simp
  from Cons.IH [OF this] have "set ys = set (take left work @ [pivot] @ drop left work) \<union> set rest" .
  moreover have "set (take left work) \<union> set (drop left work) = set work"
    by (rule set_take_drop)
  ultimately show ?case by auto
qed

lemma sort_by_set: "sort_by cmp xs = Inr ys \<Longrightarrow> set ys = set xs"
proof (cases "length xs < 2")
  case True
  assume "sort_by cmp xs = Inr ys"
  with True show ?thesis by (simp add: sort_by_def)
next
  case False
  assume a: "sort_by cmp xs = Inr ys"
  with False obtain n zs where c: "count_and_make_run cmp xs = Inr (n, zs)"
    by (auto simp: sort_by_def split: sum.splits)
  with a False have b: "binary_insertion cmp (take n zs) (drop n zs) = Inr ys"
    by (simp add: sort_by_def)
  have "set (take n zs) \<union> set (drop n zs) = set zs"
    by (rule set_take_drop)
  with binary_insertion_set [OF b] count_and_make_run_set [OF c] show ?thesis by simp
qed








lemma buildIndex_written:
  "written (buildIndex env) = Some docs \<Longrightarrow> \<exists>entries docs0. readdir env = Inr entries \<and>
     build_docs env (filter supported entries) [] = Inr docs0 \<and>
     sort_by compare_docs docs0 = Inr docs"
proof -
  assume w: "written (buildIndex env) = Some docs"
  show ?thesis
  proof (cases "readdir env")
    case (Inl e)
    with w show ?thesis by (simp add: buildIndex_def aborted_def)
  next
    case (Inr entries)
    note r = this
    show ?thesis
    proof (cases "build_docs env (filter supported entries) []")
      case (Inl e)
      with w r show ?thesis by (simp add: buildIndex_def aborted_def)
    next
      case (Inr docs0)
      note b = this
      show ?thesis
      proof (cases "sort_by compare_docs docs0")
        case (Inl e)
        with w r b show ?thesis by (simp add: buildIndex_def aborted_def)
      next
        case (Inr sorted_docs)
        with w r b have "sorted_docs = docs"
          by (cases "mkdir env"; cases "writeFile env") (simp_all add: buildIndex_def aborted_def)
        with Inr r b show ?thesis by simp
      qed
    qed
  qed
qed

section \<open>The comparison of titles and of orders\<close>












section \<open>The body text of a document\<close>

text \<open>
  C3, as the specification states it, fails: the body is not made of the top-level
  paragraphs only. In \<open>doc_quote\<close> the paragraph inside the block quote contributes the
  second line of the body, while the top-level paragraphs alone give one line.
\<close>

theorem body_top_level_counterexample:
  "markdownToText doc_quote = ''a b'' @ [CHR 0x0A] @ ''x'' \<and>
   body_of (top_level_paragraphs doc_quote) = ''a b''"
  by code_simp

text \<open>
  C3, amended: for every markdown tree, the body is made of the paragraph nodes at any
  depth of the tree (those inside lists and block quotes included), in document order:
  the text of each, white space collapsed and trimmed, empty results skipped, joined by
  line feeds.
\<close>

theorem markdownToText_all_paragraphs:
  "markdownToText tree = body_of (all_paragraphs tree)"
proof -
  have "visit (is_type ''paragraph'')
          (\<lambda>node paragraphs.
             let paragraph = trim (collapse_ws (toString node))
             in if paragraph \<noteq> [] then paragraphs @ [paragraph] else paragraphs) tree []
        = fold (\<lambda>x acc. if paragraph_line x \<noteq> [] then acc @ [paragraph_line x] else acc)
            (all_paragraphs tree) []"
    unfolding visit_fold all_paragraphs_def paragraph_line_def Let_def ..
  also have "\<dots> = map paragraph_line (filter (\<lambda>x. paragraph_line x \<noteq> []) (all_paragraphs tree))"
    by (simp add: fold_push)
  also have "\<dots> = filter (\<lambda>line. line \<noteq> []) (map paragraph_line (all_paragraphs tree))"
    by (simp add: filter_map comp_def)
  finally show ?thesis
    by (simp add: markdownToText_def body_of_def)
qed

theorem markdownToText_all_paragraphs_witness:
  "markdownToText doc_quote = body_of (all_paragraphs doc_quote) \<and>
   map toString (all_paragraphs doc_quote) = [''a  b'', ''x'']"
proof -
  have "map toString (all_paragraphs doc_quote) = [''a  b'', ''x'']"
    by code_simp
  with markdownToText_all_paragraphs [of doc_quote] show ?thesis
    by simp
qed

section \<open>The content of a section\<close>

lemma collect_inv:
  "paragraphs = map (\<lambda>p. trim (toString (cs ! p))) ps \<Longrightarrow> length ps < 3 \<Longrightarrow> sorted_wrt (<) ps \<Longrightarrow>
   \<forall>p \<in> set ps. i < p \<and> p < lookahead \<and> p < length cs \<and> ntype (cs ! p) = ''paragraph'' \<Longrightarrow>
   i < lookahead \<Longrightarrow> d = depth (cs ! i) \<Longrightarrow>
   \<forall>j. i < j \<and> j < lookahead \<longrightarrow> \<not> closes cs i j \<Longrightarrow>
   \<exists>ps'. collect cs d lookahead paragraphs = map (\<lambda>p. trim (toString (cs ! p))) ps' \<and>
         lead_paragraphs cs i ps'"
proof (induction cs d lookahead paragraphs arbitrary: ps rule: collect.induct)
  case (1 cs d lookahead paragraphs)
  let ?f = "\<lambda>p. trim (toString (cs ! p))"
  have old: "in_section cs i p \<and> ntype (cs ! p) = ''paragraph''" if "p \<in> set ps" for p
    using that "1.prems"(4,7) by (auto simp: in_section_def)
  have keep: "lead_paragraphs cs i ps"
    using "1.prems"(2,3) old by (simp add: lead_paragraphs_def)
  show ?case
  proof (cases "lookahead < length cs")
    case False
    then have "collect cs d lookahead paragraphs = paragraphs"
      by (subst collect.simps) simp
    with keep "1.prems"(1) show ?thesis by blast
  next
    case inside: True
    show ?thesis
    proof (cases "closes cs i lookahead")
      case True
      then have "collect cs d lookahead paragraphs = paragraphs"
        using inside "1.prems"(6) by (subst collect.simps) (simp add: closes_def)
      with keep "1.prems"(1) show ?thesis by blast
    next
      case False
      define take where
        "take \<longleftrightarrow> ntype (cs ! lookahead) = ''paragraph'' \<and> ?f lookahead \<noteq> []"
      define ps'' where "ps'' = (if take then ps @ [lookahead] else ps)"
      define paragraphs' where "paragraphs' = map ?f ps''"
      have p'_eq: "paragraphs' =
          (if ntype (cs ! lookahead) = ''paragraph'' then
             (if trim (toString (cs ! lookahead)) \<noteq> []
              then paragraphs @ [trim (toString (cs ! lookahead))] else paragraphs)
           else paragraphs)"
        using "1.prems"(1) by (simp add: paragraphs'_def ps''_def take_def)
      have p'_let: "paragraphs' =
          (if ntype (cs ! lookahead) = ''paragraph'' then
             (let text = trim (toString (cs ! lookahead)) in
              if text \<noteq> [] then paragraphs @ [text] else paragraphs)
           else paragraphs)"
        unfolding Let_def by (rule p'_eq)
      have nocl: "\<forall>j. i < j \<and> j < lookahead + 1 \<longrightarrow> \<not> closes cs i j"
        using "1.prems"(7) False by (auto simp: less_Suc_eq)
      have sorted'': "sorted_wrt (<) ps''"
        using "1.prems"(3,4) by (auto simp: ps''_def sorted_wrt_append)
      have mem'': "\<forall>p \<in> set ps''. i < p \<and> p < lookahead + 1 \<and> p < length cs \<and> ntype (cs ! p) = ''paragraph''"
        using "1.prems"(4,5) inside by (auto simp: ps''_def take_def)
      have len'': "length ps'' \<le> 3"
        using "1.prems"(2) by (simp add: ps''_def)
      have ncl: "\<not> (ntype (cs ! lookahead) = ''heading'' \<and> depth (cs ! lookahead) \<le> d)"
        using False "1.prems"(6) by (simp add: closes_def)
      have unfold: "collect cs d lookahead paragraphs =
          (if 3 \<le> length paragraphs' then paragraphs'
           else collect cs d (lookahead + 1) paragraphs')"
        by (subst collect.simps) (use inside ncl in
              \<open>simp only: Let_def if_True if_False p'_eq [symmetric]\<close>)
      show ?thesis
      proof (cases "3 \<le> length paragraphs'")
        case True
        then have "collect cs d lookahead paragraphs = paragraphs'"
          by (simp add: unfold)
        moreover have "lead_paragraphs cs i ps''"
          using len'' sorted'' mem'' nocl by (auto simp: lead_paragraphs_def in_section_def)
        ultimately show ?thesis
          unfolding paragraphs'_def by blast
      next
        case short: False
        then have step: "collect cs d lookahead paragraphs = collect cs d (lookahead + 1) paragraphs'"
          by (simp add: unfold)
        have "\<exists>ps'. collect cs d (lookahead + 1) paragraphs' = map ?f ps' \<and> lead_paragraphs cs i ps'"
        proof (rule "1.IH" [OF inside refl ncl p'_let])
          show "\<not> 3 \<le> length paragraphs'" by (rule short)
          show "paragraphs' = map ?f ps''" by (simp add: paragraphs'_def)
          show "length ps'' < 3" using short by (simp add: paragraphs'_def)
          show "sorted_wrt (<) ps''" by (rule sorted'')
          show "\<forall>p\<in>set ps''. i < p \<and> p < lookahead + 1 \<and> p < length cs \<and> ntype (cs ! p) = ''paragraph''"
            by (rule mem'')
          show "i < lookahead + 1" using "1.prems"(5) by simp
          show "d = depth (cs ! i)" by (rule "1.prems"(6))
          show "\<forall>j. i < j \<and> j < lookahead + 1 \<longrightarrow> \<not> closes cs i j" by (rule nocl)
        qed
        with step show ?thesis by simp
      qed
    qed
  qed
qed


lemma collect_lead:
  "i < length cs \<Longrightarrow>
   \<exists>ps. collect cs (depth (cs ! i)) (i + 1) [] = map (\<lambda>p. trim (toString (cs ! p))) ps \<and>
        lead_paragraphs cs i ps"
  by (rule collect_inv [where ps = "[]"]) auto

lemma sections_loop_inv:
  "list_all2 (section_at cs) sections (filter (\<lambda>i. opens_section (cs ! i)) [0..<index]) \<Longrightarrow>
   index \<le> length cs \<Longrightarrow>
   list_all2 (section_at cs) (sections_loop norm cs index slugger sections)
     (filter (\<lambda>i. opens_section (cs ! i)) [0..<length cs])"
proof (induction "length cs - index" arbitrary: index slugger sections)
  case 0
  then have "index = length cs" by simp
  with "0.prems"(1) show ?case by (simp add: sections_loop_end)
next
  case (Suc n)
  then have inside: "index < length cs" by simp
  have n: "n = length cs - (index + 1)" using Suc.hyps(2) by simp
  show ?case
  proof (cases "opens_section (cs ! index)")
    case False
    have "list_all2 (section_at cs) sections (filter (\<lambda>i. opens_section (cs ! i)) [0..<index + 1])"
      using Suc.prems(1) False by simp
    from Suc.hyps(1) [OF n this] inside show ?thesis
      by (simp add: sections_loop_skip [OF inside False])
  next
    case True
    obtain sid slugger' where sl: "slug norm slugger (trim (toString (cs ! index))) = (sid, slugger')"
      by (cases "slug norm slugger (trim (toString (cs ! index)))")
    let ?s = "\<lparr>s_id = sid, s_title = trim (toString (cs ! index)), s_depth = depth (cs ! index),
               s_content = join '' '' (collect cs (depth (cs ! index)) (index + 1) [])\<rparr>"
    have "section_at cs ?s index"
      using collect_lead [OF inside] by (auto simp: section_at_def)
    then have "list_all2 (section_at cs) (sections @ [?s]) (filter (\<lambda>i. opens_section (cs ! i)) [0..<index + 1])"
      using Suc.prems(1) True by (simp add: list_all2_appendI)
    from Suc.hyps(1) [OF n this] inside show ?thesis
      by (simp add: sections_loop_push [OF inside True sl])
  qed
qed

text \<open>
  C4: the sections of a document are, in order, the sections of the top-level headings
  that open one; the content of each is the space-join of the trimmed texts of at most
  three paragraphs, taken in document order among the top-level nodes that lie after the
  section's heading and before the next heading of depth at most the heading's depth (or
  the end of the node list).
\<close>

theorem sections_lead_paragraphs:
  "list_all2 (section_at (children tree)) (extractSections norm tree)
     (section_indices (children tree))"
proof -
  show ?thesis
    unfolding extractSections_def section_indices_def by (simp add: sections_loop_inv)
qed

theorem sections_lead_paragraphs_witness:
  "list_all2 (section_at (children doc_retry)) (extractSections ascii_slug doc_retry)
     (section_indices (children doc_retry)) \<and>
   section_indices (children doc_retry) = [0, 2, 4] \<and>
   map s_content (extractSections ascii_slug doc_retry) = [''First. Second.'', ''Second.'', ''Third.'']"
proof -
  have "section_indices (children doc_retry) = [0, 2, 4]"
    by code_simp
  moreover have "map s_content (extractSections ascii_slug doc_retry) =
      [''First. Second.'', ''Second.'', ''Third.'']"
    by code_simp
  ultimately show ?thesis
    using sections_lead_paragraphs [of doc_retry ascii_slug] by simp
qed

section \<open>Heading ids of the index builder and of the renderer\<close>

text \<open>
  C1: the ids that \<^verbatim>\<open>extractSections\<close> and \<^verbatim>\<open>extractHeadings\<close> give to the same heading
  should be equal, and are not. In \<open>doc_dup\<close> the heading of depth 2 is processed by both:
  its section id is \<^verbatim>\<open>overview-1\<close>, since the slugger of \<^verbatim>\<open>extractSections\<close> has seen the
  title of depth 1, and its heading id is \<^verbatim>\<open>overview\<close>, since \<^verbatim>\<open>extractHeadings\<close> skips
  depth 1. In \<open>doc_code\<close> the section id is made from the whole text of the heading and
  the heading id from its text nodes only, untrimmed.
\<close>

theorem heading_ids_diverge:
  "map section_key (extractSections ascii_slug doc_dup) =
     [(''overview'', ''Overview'', 1), (''overview-1'', ''Overview'', 2)] \<and>
   map heading_key (extractHeadings ascii_slug doc_dup) = [(''overview'', ''Overview'', 2)] \<and>
   map section_key (extractSections ascii_slug doc_code) = [(''using-git'', ''Using git'', 2)] \<and>
   map heading_key (extractHeadings ascii_slug doc_code) = [(''using-'', ''Using '', 2)]"
  by code_simp

section \<open>Expansion of the index\<close>

lemma fold_push_map:
  "fold (\<lambda>x acc. acc @ [f x]) xs acc = acc @ map f xs"
  by (induction xs arbitrary: acc) simp_all

lemma expandEntries_concat:
  "fold (\<lambda>doc expanded.
           case d_sections doc of
             None \<Rightarrow> expanded @ [de doc]
           | Some sections \<Rightarrow>
               fold (\<lambda>section expanded. expanded @ [se doc section]) sections
                 (expanded @ [de doc]))
     docs acc
   = acc @ concat (map (\<lambda>doc. de doc # map (se doc) (sections_of doc)) docs)"
  by (induction docs arbitrary: acc)
     (simp_all add: sections_of_def fold_push_map split: option.split)

text \<open>
  C5: for every list of documents of the index, \<^verbatim>\<open>expandEntries\<close> gives, for each document
  in input order, one entry of kind document that copies the slug, title, summary, tags,
  body and questions of the document and has no section fields, followed by one entry of
  kind section per section, in the order of the sections, that copies the same fields of
  the document and carries the id, title and content of the section; so the number of
  entries is the sum over the documents of one plus the number of sections. A document
  without a \<^verbatim>\<open>sections\<close> array counts as one without sections.
\<close>

theorem expandEntries_shape:
  "expandEntries docs =
     concat (map (\<lambda>doc.
        \<lparr>e_type = Doc, e_slug = d_slug doc, e_title = d_title doc, e_summary = d_summary doc,
         e_tags = d_tags doc, e_body = d_body doc, e_questions = d_questions doc,
         e_sectionId = None, e_sectionTitle = None, e_sectionContent = None\<rparr> #
        map (\<lambda>section.
               \<lparr>e_type = Section, e_slug = d_slug doc, e_title = d_title doc,
                e_summary = d_summary doc, e_tags = d_tags doc, e_body = d_body doc,
                e_questions = d_questions doc, e_sectionId = Some (se_id section),
                e_sectionTitle = Some (se_title section),
                e_sectionContent = Some (se_content section)\<rparr>)
          (sections_of doc)) docs) \<and>
   length (expandEntries docs) = (\<Sum>doc\<leftarrow>docs. 1 + length (sections_of doc))"
proof -
  have e: "expandEntries docs =
     concat (map (\<lambda>doc.
        \<lparr>e_type = Doc, e_slug = d_slug doc, e_title = d_title doc, e_summary = d_summary doc,
         e_tags = d_tags doc, e_body = d_body doc, e_questions = d_questions doc,
         e_sectionId = None, e_sectionTitle = None, e_sectionContent = None\<rparr> #
        map (\<lambda>section.
               \<lparr>e_type = Section, e_slug = d_slug doc, e_title = d_title doc,
                e_summary = d_summary doc, e_tags = d_tags doc, e_body = d_body doc,
                e_questions = d_questions doc, e_sectionId = Some (se_id section),
                e_sectionTitle = Some (se_title section),
                e_sectionContent = Some (se_content section)\<rparr>)
          (sections_of doc)) docs)"
    unfolding expandEntries_def Let_def by (simp add: expandEntries_concat)
  have "length (concat (map (\<lambda>doc. de doc # map (se doc) (sections_of doc)) ds))
      = (\<Sum>doc\<leftarrow>ds. 1 + length (sections_of doc))" for ds
    and de :: "SearchIndexDoc \<Rightarrow> SearchEntry" and se
    by (induction ds) simp_all
  with e show ?thesis by simp
qed

theorem expandEntries_shape_witness:
  "expandEntries [kafka_doc, kafka_doc\<lparr>d_slug := ''04-avro'', d_sections := None\<rparr>] =
     [\<lparr>e_type = Doc, e_slug = ''03-kafka'', e_title = ''Kafka Basics'', e_summary = [],
       e_tags = [], e_body = ''Text.'', e_questions = Some [],
       e_sectionId = None, e_sectionTitle = None, e_sectionContent = None\<rparr>,
      \<lparr>e_type = Section, e_slug = ''03-kafka'', e_title = ''Kafka Basics'', e_summary = [],
       e_tags = [], e_body = ''Text.'', e_questions = Some [],
       e_sectionId = Some ''retry-policy'', e_sectionTitle = Some ''Retry Policy'',
       e_sectionContent = Some ''Text.''\<rparr>,
      \<lparr>e_type = Doc, e_slug = ''04-avro'', e_title = ''Kafka Basics'', e_summary = [],
       e_tags = [], e_body = ''Text.'', e_questions = Some [],
       e_sectionId = None, e_sectionTitle = None, e_sectionContent = None\<rparr>] \<and>
   length (expandEntries [kafka_doc, kafka_doc\<lparr>d_slug := ''04-avro'', d_sections := None\<rparr>]) = 3"
  using expandEntries_shape [of "[kafka_doc, kafka_doc\<lparr>d_slug := ''04-avro'', d_sections := None\<rparr>]"]
  by (simp add: sections_of_def kafka_doc_def)

section \<open>The debounced search\<close>

lemma quiet_step: "quiet s \<Longrightarrow> quiet (step search e s)"
proof (cases e)
  case (IndexLoad outcome)
  assume "quiet s"
  then show ?thesis unfolding IndexLoad
    by (cases outcome) (auto simp: quiet_def log_failure_def split: option.splits)
next
  case (Keystroke q)
  assume "quiet s"
  then show ?thesis unfolding Keystroke
    by (auto simp: quiet_def setQuery_def run_effect_def cleanup_def blank_def)
next
  case TimerFires
  assume "quiet s"
  then show ?thesis unfolding TimerFires
    by (auto simp: quiet_def timer_fires_def split: option.splits)
next
  case ResultSelected
  assume "quiet s"
  then show ?thesis unfolding ResultSelected
    by (auto simp: quiet_def result_selected_def setQuery_def run_effect_def cleanup_def blank_def)
qed

lemma quiet_run: "quiet s \<Longrightarrow> quiet (run search es s)"
  unfolding run_def by (induction es arbitrary: s) (simp_all add: quiet_step)

lemma quiet_mounted: "quiet mounted"
  by (simp add: quiet_def mounted_def blank_def trim_def)

lemma unset_step: "unset s \<Longrightarrow> is_failed_load e \<Longrightarrow> unset (step search e s)"
proof (cases e)
  case (IndexLoad outcome)
  assume "unset s" "is_failed_load e"
  then show ?thesis unfolding IndexLoad
    by (cases outcome) (auto simp: unset_def log_failure_def)
next
  case (Keystroke q)
  assume "unset s"
  then show ?thesis unfolding Keystroke
    by (auto simp: unset_def setQuery_def run_effect_def cleanup_def)
next
  case TimerFires
  assume "unset s"
  then show ?thesis unfolding TimerFires
    by (auto simp: unset_def timer_fires_def split: option.splits)
next
  case ResultSelected
  assume "unset s"
  then show ?thesis unfolding ResultSelected
    by (auto simp: unset_def result_selected_def setQuery_def run_effect_def cleanup_def)
qed

lemma keystrokes_state:
  "armed s \<Longrightarrow>
   armed (run search (map Keystroke qs) s) \<and>
   query (run search (map Keystroke qs) s) = last (query s # qs) \<and>
   fuseRef (run search (map Keystroke qs) s) = fuseRef s \<and>
   searched (run search (map Keystroke qs) s) = searched s"
proof (induction qs arbitrary: s)
  case Nil
  then show ?case by (simp add: run_def)
next
  case (Cons q qs)
  have a: "armed (setQuery q s)"
    using Cons.prems by (auto simp: armed_def setQuery_def run_effect_def cleanup_def blank_def)
  have b: "query (setQuery q s) = q" "fuseRef (setQuery q s) = fuseRef s" "searched (setQuery q s) = searched s"
    by (auto simp: setQuery_def run_effect_def cleanup_def)
  from Cons.IH [OF a] b show ?case
    by (simp add: run_def)
qed

text \<open>
  C6, as the specification states it, fails: keystrokes followed by silence do not always
  end in one search. With the index loaded, typing \<^verbatim>\<open>k\<close> and deleting it before the
  timeout ends in no search; with the index not loaded, typing \<^verbatim>\<open>kafka\<close> ends in no
  search either.
\<close>

theorem debounce_one_search_counterexample:
  "searched (run first_entries [index_loaded, Keystroke ''k'', Keystroke [], TimerFires] mounted)
     = [] \<and>
   searched (run first_entries [Keystroke ''kafka'', TimerFires] mounted) = []"
  by code_simp

text \<open>
  C6, amended: keystrokes of which the first changes the input, with no timeout firing
  between them, followed by the timeout firing, add exactly one search, of the last
  keystroke's query, when the index is set and that query is not blank, and no search
  otherwise; no other query is searched and no timeout stays pending.
\<close>

theorem debounce_one_search:
  assumes "qs \<noteq> []" and "hd qs \<noteq> query s"
  shows "searched (run search (map Keystroke qs @ [TimerFires]) s) =
           searched s @ (if fuseRef s \<noteq> None \<and> \<not> blank (last qs) then [last qs] else []) \<and>
         timer (run search (map Keystroke qs @ [TimerFires]) s) = None"
proof -
  obtain q qs' where qs: "qs = q # qs'" using assms(1) by (cases qs) auto
  let ?s1 = "setQuery q s"
  have a: "armed ?s1"
    using assms(2) qs by (auto simp: armed_def setQuery_def run_effect_def cleanup_def blank_def)
  have b: "query ?s1 = q" "fuseRef ?s1 = fuseRef s" "searched ?s1 = searched s"
    by (auto simp: setQuery_def run_effect_def cleanup_def)
  let ?s2 = "run search (map Keystroke qs') ?s1"
  from keystrokes_state [OF a, of search qs'] b
  have c: "armed ?s2" "query ?s2 = last qs" "fuseRef ?s2 = fuseRef s" "searched ?s2 = searched s"
    by (simp_all add: qs)
  have r: "run search (map Keystroke qs @ [TimerFires]) s = timer_fires search ?s2"
    by (simp add: run_def qs)
  show ?thesis
    using c unfolding r by (auto simp: armed_def timer_fires_def split: option.splits)
qed

theorem debounce_one_search_witness:
  "searched (run first_entries (map Keystroke [''k'', ''ka''] @ [TimerFires])
      (run first_entries [index_loaded] mounted)) = [''ka''] \<and>
   timer (run first_entries (map Keystroke [''k'', ''ka''] @ [TimerFires])
      (run first_entries [index_loaded] mounted)) = None"
proof -
  let ?s = "run first_entries [index_loaded] mounted"
  have 1: "[''k'', ''ka''] \<noteq> []"
    by simp
  have 2: "hd [''k'', ''ka''] \<noteq> query ?s"
    by code_simp
  have "fuseRef ?s \<noteq> None" "\<not> blank (last [''k'', ''ka''])" "searched ?s = []"
    by code_simp+
  with debounce_one_search [OF 1 2, of first_entries] show ?thesis
    by simp
qed

section \<open>Blank queries\<close>

text \<open>
  C7: in every state that the component reaches from its mounted state, a keystroke that
  makes the query blank (empty or white space only) leaves no results and no pending
  timeout, the index's search is not called then nor when the debounce time has passed,
  and no blank query was ever searched before.
\<close>

theorem blank_query_no_search:
  assumes "blank q" and "s = run search es mounted"
  shows "results (step search (Keystroke q) s) = [] \<and>
         timer (step search (Keystroke q) s) = None \<and>
         searched (step search TimerFires (step search (Keystroke q) s)) = searched s \<and>
         (\<forall>x \<in> set (searched s). \<not> blank x)"
proof -
  have q: "quiet s" using assms(2) quiet_run [OF quiet_mounted] by simp
  then have "\<forall>x \<in> set (searched s). \<not> blank x" by (simp add: quiet_def)
  moreover have k: "searched (step search (Keystroke q) s) = searched s"
    by (simp add: setQuery_def run_effect_def cleanup_def)
  moreover have r: "results (step search (Keystroke q) s) = [] \<and>
      timer (step search (Keystroke q) s) = None"
    using q assms(1) by (auto simp: quiet_def setQuery_def run_effect_def cleanup_def blank_def)
  moreover have "searched (step search TimerFires (step search (Keystroke q) s)) = searched s"
    using r k by (simp add: timer_fires_def)
  ultimately show ?thesis by simp
qed

theorem blank_query_no_search_witness:
  "results (step first_entries (Keystroke ''  '')
      (run first_entries [index_loaded, Keystroke ''k''] mounted)) = [] \<and>
   timer (step first_entries (Keystroke ''  '')
      (run first_entries [index_loaded, Keystroke ''k''] mounted)) = None \<and>
   searched (step first_entries TimerFires (step first_entries (Keystroke ''  '')
      (run first_entries [index_loaded, Keystroke ''k''] mounted))) = []"
proof -
  have 1: "blank ''  ''"
    by code_simp
  have "searched (run first_entries [index_loaded, Keystroke ''k''] mounted) = []"
    by code_simp
  with blank_query_no_search [OF 1 refl, of first_entries "[index_loaded, Keystroke ''k'']"]
  show ?thesis
    by simp
qed

section \<open>A failed fetch of the index\<close>

text \<open>
  C9: when every load of the index fails (the fetch rejects, or the response is not a
  success), then whatever the keystrokes, timeouts and selections, the index stays unset,
  the results stay empty and no search is made. A rejected fetch is caught and logged;
  it changes nothing else of the state.
\<close>

theorem failed_fetch_no_results:
  assumes "\<forall>e \<in> set es. is_failed_load e"
  shows "fuseRef (run search es mounted) = None \<and> results (run search es mounted) = [] \<and>
         searched (run search es mounted) = []"
proof -
  have "unset s \<Longrightarrow> \<forall>e \<in> set es. is_failed_load e \<Longrightarrow> unset (run search es s)" for s
    unfolding run_def by (induction es arbitrary: s) (simp_all add: unset_step)
  moreover have "unset mounted" by (simp add: unset_def mounted_def)
  ultimately have "unset (run search es mounted)" using assms by blast
  then show ?thesis by (simp add: unset_def)
qed

theorem failed_fetch_no_results_witness:
  "fuseRef (run first_entries
      [IndexLoad (FetchResolves False None True), Keystroke ''kafka'', TimerFires] mounted) = None \<and>
   results (run first_entries
      [IndexLoad (FetchResolves False None True), Keystroke ''kafka'', TimerFires] mounted) = [] \<and>
   searched (run first_entries
      [IndexLoad (FetchResolves False None True), Keystroke ''kafka'', TimerFires] mounted) = []"
proof -
  have "\<forall>e \<in> set [IndexLoad (FetchResolves False None True), Keystroke ''kafka'', TimerFires].
          is_failed_load e"
    by simp
  from failed_fetch_no_results [OF this, of first_entries] show ?thesis .
qed

section \<open>A build that fails\<close>

text \<open>
  C8: when the listing of the content directory throws, or a supported file of the listing
  fails (reading it, its front matter, or parsing its content throws), the build exits
  with code 1, logs the failure with its cause, and hands no array to \<^verbatim>\<open>writeFile\<close>:
  the output file is not written.
\<close>

theorem build_aborts:
  assumes "(\<exists>e. readdir env = Inl e) \<or>
           (\<exists>entries. readdir env = Inr entries \<and> (\<exists>file \<in> set entries. supported file \<and> file_fails env file))"
  shows "exit_code (buildIndex env) = 1 \<and> written (buildIndex env) = None \<and>
         (\<exists>e. logged (buildIndex env) = [Failure ''Failed to build search index'' e])"
  using assms
proof
  assume "\<exists>e. readdir env = Inl e"
  then show ?thesis by (auto simp: buildIndex_def aborted_def)
next
  assume "\<exists>entries. readdir env = Inr entries \<and> (\<exists>file \<in> set entries. supported file \<and> file_fails env file)"
  then obtain entries f where r: "readdir env = Inr entries"
    and f: "f \<in> set (filter supported entries)" "file_fails env f" by auto
  from f obtain e where "build_docs env (filter supported entries) [] = Inl e"
    using build_docs_fails [of "filter supported entries" env "[]"] file_fails_record by blast
  with r show ?thesis by (simp add: buildIndex_def aborted_def)
qed

theorem build_aborts_witness:
  "exit_code (buildIndex site_broken) = 1 \<and> written (buildIndex site_broken) = None \<and>
   (\<exists>e. logged (buildIndex site_broken) = [Failure ''Failed to build search index'' e])"
proof -
  have r: "readdir site_broken = Inr [''kafka.md'', ''broken.md'']"
    by (simp add: site_broken_def site_def)
  have s: "supported ''broken.md''"
    by code_simp
  have f: "file_fails site_broken ''broken.md''"
    by code_simp
  have "(\<exists>e. readdir site_broken = Inl e) \<or>
        (\<exists>entries. readdir site_broken = Inr entries \<and>
           (\<exists>file \<in> set entries. supported file \<and> file_fails site_broken file))"
    using r s f by simp
  then show ?thesis
    by (rule build_aborts)
qed


section \<open>The order of the output\<close>









section \<open>A document that is indexed and cannot be listed\<close>

lemma metas_loop_fails:
  "\<exists>f \<in> set files. \<exists>e. file_meta env f = Inl e \<Longrightarrow> \<exists>e. metas_loop env files metas = Inl e"
proof (induction files arbitrary: metas)
  case Nil
  then show ?case by simp
next
  case (Cons f fs)
  show ?case
  proof (cases "file_meta env f")
    case (Inl e)
    then show ?thesis by simp
  next
    case (Inr m)
    with Cons.prems have "\<exists>g \<in> set fs. \<exists>e. file_meta env g = Inl e" by auto
    from Cons.IH [OF this, of "metas @ [m]"] Inr show ?thesis by simp
  qed
qed

lemma file_meta_rejects:
  assumes "readFile env f = Inr raw" "matter env raw = Inr (data, content)"
    "lacks_title data \<or> lacks_order data"
  shows "\<exists>e. file_meta env f = Inl e"
proof (cases "lacks_title data")
  case True
  then show ?thesis
    using assms(1,2)
    by (cases "fm_title data") (auto simp: file_meta_def lacks_title_def split: jsval.splits)
next
  case False
  with assms(3) have o: "lacks_order data" by simp
  from False obtain t where t: "fm_title data = Some (JStr t)" "t \<noteq> []"
    by (auto simp: lacks_title_def split: option.splits jsval.splits)
  from o show ?thesis
    using assms(1,2) t
    by (cases "fm_order data") (auto simp: file_meta_def lacks_order_def split: jsval.splits)
qed

lemma file_record_fields:
  assumes "readFile env f = Inr raw" "matter env raw = Inr (data, content)"
    "file_record env f = Inr r"
  shows "r_slug r = slug_of f" "r_title r = nullish (fm_title data) (JStr (slug_of f))"
    "r_order r = order_of (fm_order data)"
proof -
  from assms obtain tree where "parse env content = Inr tree"
    by (cases "parse env content") (simp_all add: file_record_def)
  with assms have "r = \<lparr>r_slug = slug_of f,
                             r_title = nullish (fm_title data) (JStr (slug_of f)),
                             r_summary = nullish (fm_summary data) (JStr []),
                             r_tags = tags_of (fm_tags data),
                             r_order = order_of (fm_order data),
                             r_body = markdownToText tree,
                             r_questions = extractQuestions tree,
                             r_sections = extractSections (normalise env) tree\<rparr>"
    by (simp add: file_record_def Let_def)
  then show "r_slug r = slug_of f" "r_title r = nullish (fm_title data) (JStr (slug_of f))"
    "r_order r = order_of (fm_order data)"
    by simp_all
qed

text \<open>
  C10, as stated, fails where it says that the index builder falls back to the slug
  whenever a string title is lacking: in \<open>site_number\<close> the title of \<^verbatim>\<open>a.md\<close> is the number
  42; the listing throws, and the index builder keeps 42 as the title of the record.
\<close>

theorem listing_fails_index_builds_counterexample:
  "getAllDocsMeta site_number =
     Inl (Error (''Missing required frontmatter '' @ [CHR 0x22] @ ''title'' @ [CHR 0x22] @ '' in a.md'')) \<and>
   map r_slug (the (written (buildIndex site_number))) = [''a''] \<and>
   map r_title (the (written (buildIndex site_number))) = [JNum (Num 42)]"
  by code_simp

text \<open>
  C10, amended: when a supported, readable file of the content directory has a front matter
  without a non-empty string title or without a numeric order, \<^verbatim>\<open>getAllDocsMeta\<close> and
  \<^verbatim>\<open>getAllDocSlugs\<close> throw, while every array that the index builder writes has a record
  for that file: with the slug as title when the title is absent (undefined or null), and
  with order 999 when the order is not a number.
\<close>

theorem listing_fails_index_builds:
  assumes "readdir env = Inr entries" and "f \<in> set entries" and "supported f"
    and "readFile env f = Inr raw" and "matter env raw = Inr (data, content)"
    and "lacks_title data \<or> lacks_order data"
  shows "(\<exists>e. getAllDocsMeta env = Inl e) \<and> (\<exists>e. getAllDocSlugs env = Inl e) \<and>
         (\<forall>docs. written (buildIndex env) = Some docs \<longrightarrow>
            (\<exists>r \<in> set docs. r_slug r = slug_of f \<and>
               (title_absent data \<longrightarrow> r_title r = JStr (slug_of f)) \<and>
               (lacks_order data \<longrightarrow> r_order r = Num 999)))"
proof -
  have mem: "f \<in> set (filter supported entries)"
    using assms(2,3) by simp
  from file_meta_rejects [OF assms(4,5,6)] mem
  have "\<exists>g \<in> set (filter supported entries). \<exists>e. file_meta env g = Inl e"
    by blast
  from metas_loop_fails [OF this, of "[]"]
  obtain e where "metas_loop env (filter supported entries) [] = Inl e" ..
  with assms(1) have m: "getAllDocsMeta env = Inl e"
    by (simp add: getAllDocsMeta_def)
  then have s: "getAllDocSlugs env = Inl e"
    by (simp add: getAllDocSlugs_def)
  have b: "\<exists>r \<in> set docs. r_slug r = slug_of f \<and>
               (title_absent data \<longrightarrow> r_title r = JStr (slug_of f)) \<and>
               (lacks_order data \<longrightarrow> r_order r = Num 999)"
    if w: "written (buildIndex env) = Some docs" for docs
  proof -
    from buildIndex_written [OF w] assms(1) obtain docs0
      where bd: "build_docs env (filter supported entries) [] = Inr docs0"
        and so: "sort_by compare_docs docs0 = Inr docs"
      by auto
    from build_docs_records [OF bd mem] obtain r
      where fr: "file_record env f = Inr r" and r0: "r \<in> set docs0"
      by blast
    have rd: "r \<in> set docs"
      using sort_by_set [OF so] r0 by simp
    note fields = file_record_fields [OF assms(4,5) fr]
    have 1: "title_absent data \<longrightarrow> r_title r = JStr (slug_of f)"
      by (auto simp: fields title_absent_def nullish_def)
    have 3: "lacks_order data \<longrightarrow> r_order r = Num 999"
    proof
      assume "lacks_order data"
      then show "r_order r = Num 999"
        by (cases "fm_order data")
           (auto simp: fields order_of_def lacks_order_def split: jsval.splits)
    qed
    from rd fields(1) 1 3 show ?thesis by blast
  qed
  from m s b show ?thesis by blast
qed


theorem listing_fails_index_builds_witness:
  "(\<exists>e. getAllDocsMeta site_draft = Inl e) \<and> (\<exists>e. getAllDocSlugs site_draft = Inl e) \<and>
   exit_code (buildIndex site_draft) = 0 \<and>
   map (\<lambda>r. (r_slug r, r_title r, r_order r)) (the (written (buildIndex site_draft))) =
     [(''kafka'', JStr ''Kafka'', Num 3), (''draft'', JStr ''draft'', Num 999)]"
proof -
  have 1: "readdir site_draft = Inr [''kafka.md'', ''draft.md'']"
    by (simp add: site_draft_def site_def)
  have 2: "''draft.md'' \<in> set [''kafka.md'', ''draft.md'']"
    by simp
  have 3: "supported ''draft.md''"
    by code_simp
  have 4: "readFile site_draft ''draft.md'' = Inr ''draft.md''"
    by (simp add: site_draft_def site_def)
  have 5: "matter site_draft ''draft.md'' = Inr (fm None None, ''draft.md'')"
    by (simp add: site_draft_def site_def)
  have 6: "lacks_title (fm None None) \<or> lacks_order (fm None None)"
    by (simp add: lacks_title_def fm_def)
  have "exit_code (buildIndex site_draft) = 0"
    by code_simp
  moreover have "map (\<lambda>r. (r_slug r, r_title r, r_order r)) (the (written (buildIndex site_draft))) =
     [(''kafka'', JStr ''Kafka'', Num 3), (''draft'', JStr ''draft'', Num 999)]"
    by code_simp
  ultimately show ?thesis
    using listing_fails_index_builds [OF 1 2 3 4 5 6] by simp
qed

end
